theory Spec2Isabelle
  imports Complex_Main "HOL-Library.Multiset"
begin

section \<open>Numbers\<close>

text \<open>
  The TypeScript sources compute with \<open>number\<close>. The embedding reads every finite
  number as the real it denotes: \<open>+\<close>, \<open>-\<close>, \<open>*\<close> and \<open>/\<close> are the exact
  operations and \<open>Math.round\<close> is rounding to the nearest integer with ties upwards.
  Rounding error, infinities and NaN are outside the embedding of the estimator's
  arithmetic.
\<close>

definition Math_round :: "real \<Rightarrow> real" where
  "Math_round x = of_int \<lfloor>x + 1 / 2\<rfloor>"

text \<open>
  The parameters of a call pass through \<open>Math.min\<close> and \<open>Math.max\<close> before any
  arithmetic. There a number is a real or NaN, and both functions return NaN as soon as an
  argument is NaN. \<open>numOf\<close> reads a number that is not NaN as its real.
\<close>

datatype jsnumber = NaN | Num real

definition Math_min :: "jsnumber \<Rightarrow> jsnumber \<Rightarrow> jsnumber" where
  "Math_min x y =
     (case x of NaN \<Rightarrow> NaN
      | Num p \<Rightarrow> (case y of NaN \<Rightarrow> NaN | Num q \<Rightarrow> Num (min p q)))"

definition Math_max :: "jsnumber \<Rightarrow> jsnumber \<Rightarrow> jsnumber" where
  "Math_max x y =
     (case x of NaN \<Rightarrow> NaN
      | Num p \<Rightarrow> (case y of NaN \<Rightarrow> NaN | Num q \<Rightarrow> Num (max p q)))"

definition numOf :: "jsnumber \<Rightarrow> real" where
  "numOf x = (case x of Num p \<Rightarrow> p | NaN \<Rightarrow> undefined)"

section \<open>Geodesic distance (frontend/src/lib/geoDistance.ts)\<close>

record Point =
  lat :: real
  lon :: real

definition EARTH_RADIUS_MILES :: real where
  "EARTH_RADIUS_MILES = 39588 / 10"

definition toRad :: "real \<Rightarrow> real" where
  "toRad deg = (deg * pi) / 180"

definition haversine_h :: "Point \<Rightarrow> Point \<Rightarrow> real" where
  "haversine_h a b =
     (let dLat = toRad (lat b - lat a);
          dLon = toRad (lon b - lon a);
          sinHalfDLat = sin (dLat / 2);
          sinHalfDLon = sin (dLon / 2)
      in sinHalfDLat * sinHalfDLat
         + cos (toRad (lat a)) * cos (toRad (lat b)) * sinHalfDLon * sinHalfDLon)"

text \<open>
  \<open>Math.PI\<close>, \<open>Math.sin\<close>, \<open>Math.cos\<close>, \<open>Math.sqrt\<close> and \<open>Math.asin\<close> are read as
  the exact functions. This carries a distance through the estimator; it does not say
  whether the double the code returns is exactly zero or only close to it.
\<close>

definition milesBetween :: "Point \<Rightarrow> Point \<Rightarrow> real" where
  "milesBetween a b = 2 * EARTH_RADIUS_MILES * arcsin (sqrt (haversine_h a b))"

section \<open>Records of the three datasets\<close>

text \<open>
  Only the fields that the estimator reads are kept: of a budget its display name, total
  expenditures, modelled central administration and flags; of an enrollment record its
  total; of an anchor its display name and its point.
\<close>

record DistrictBudget =
  budget_displayName :: string
  totalExpenditures :: real
  centralAdministrationModel :: real
  budget_flags :: "string list"

record DistrictEnrollment =
  total :: real

record DistrictAnchor =
  anchor_displayName :: string
  anchor_lat :: real
  anchor_lon :: real

text \<open>
  A dataset is a plain object. Its own properties are a partial map from keys to records.
  Reading \<open>obj[k]\<close> gives the own property when there is one; otherwise, when \<open>k\<close> is
  the name of a member of \<open>Object.prototype\<close>, the inherited member (a function, or the
  prototype object itself for \<open>__proto__\<close>: a truthy value none of whose fields
  \<open>flags\<close>, \<open>total\<close>, \<open>lat\<close>, \<dots> is defined); otherwise \<open>undefined\<close>.
\<close>

datatype 'a property = Undefined | Inherited | Own 'a

definition objectPrototypeKeys :: "string list" where
  "objectPrototypeKeys =
     [''constructor'', ''__proto__'', ''hasOwnProperty'', ''isPrototypeOf'',
      ''propertyIsEnumerable'', ''toLocaleString'', ''toString'', ''valueOf'',
      ''__defineGetter__'', ''__defineSetter__'', ''__lookupGetter__'', ''__lookupSetter__'']"

definition getProperty :: "(string \<rightharpoonup> 'a) \<Rightarrow> string \<Rightarrow> 'a property" where
  "getProperty obj k =
     (case obj k of
        Some v \<Rightarrow> Own v
      | None \<Rightarrow> if k \<in> set objectPrototypeKeys then Inherited else Undefined)"

text \<open>
  \<open>recordAt obj k\<close> is the record whose fields the code reads after \<open>obj[k]\<close> has
  passed the check for missing data. A field of an inherited member is \<open>undefined\<close>,
  which is no number and no string: the embedding leaves it unspecified.
\<close>

definition recordAt :: "(string \<rightharpoonup> 'a) \<Rightarrow> string \<Rightarrow> 'a" where
  "recordAt obj k = (case getProperty obj k of Own v \<Rightarrow> v | _ \<Rightarrow> undefined)"

type_synonym BudgetsMap = "string \<rightharpoonup> DistrictBudget"
type_synonym LeaEnrollmentMap = "string \<rightharpoonup> DistrictEnrollment"
type_synonym DistrictAnchorsMap = "string \<rightharpoonup> DistrictAnchor"

section \<open>The estimator (frontend/src/lib/consolidationV1.ts)\<close>

record ConsolidationParamsV1 =
  adminReductionRate :: real
  costPerStudentMile :: real
  affectedShare :: real

record SpokeDetail =
  key :: string
  name :: string
  enrollment :: real
  distanceMiles :: real
  cost :: real

record Missing =
  missing_budgets :: "string list"
  missing_enrollment :: "string list"
  missing_anchors :: "string list"

record ConsolidationResultV1 =
  hubKey :: string
  hubName :: string
  combinedEnrollment :: real
  combinedSpending :: real
  hubSpending :: real
  spokesSpending :: real
  baselinePerPupil :: real
  adminBaselineHub :: real
  adminBaselineSpokes :: real
  adminSavings :: real
  transportationIncrease :: real
  netImpact :: real
  projectedSpending :: real
  projectedPerPupil :: real
  adminSavingsPctCombined :: real
  transportIncreasePctCombined :: real
  netImpactPctCombined :: real
  adminSavingsPctSpokesSpending :: real
  transportIncreasePctSpokesSpending :: real
  netImpactPctSpokesSpending :: real
  spokeBreakdown :: "SpokeDetail list"
  warnings :: "string list"
  missing :: Missing
  ok :: bool

definition clamp :: "jsnumber \<Rightarrow> jsnumber \<Rightarrow> jsnumber \<Rightarrow> jsnumber" where
  "clamp v lo hi = Math_max lo (Math_min hi v)"

text \<open>
  \<open>[...new Set(selectedKeys)]\<close>: the keys are added to the set one by one, a key already
  there is skipped, and the set lists its members in the order they were added.
\<close>

fun setAddAll :: "'a list \<Rightarrow> 'a list \<Rightarrow> 'a list" where
  "setAddAll acc [] = acc"
| "setAddAll acc (k # ks) = setAddAll (if k \<in> set acc then acc else acc @ [k]) ks"

definition uniqueOf :: "'a list \<Rightarrow> 'a list" where
  "uniqueOf selectedKeys = setAddAll [] selectedKeys"

definition empty_result :: ConsolidationResultV1 where
  "empty_result =
     \<lparr> hubKey = '''', hubName = '''', combinedEnrollment = 0, combinedSpending = 0,
       hubSpending = 0, spokesSpending = 0,
       baselinePerPupil = 0, adminBaselineHub = 0, adminBaselineSpokes = 0,
       adminSavings = 0, transportationIncrease = 0, netImpact = 0,
       projectedSpending = 0, projectedPerPupil = 0,
       adminSavingsPctCombined = 0, transportIncreasePctCombined = 0,
       netImpactPctCombined = 0,
       adminSavingsPctSpokesSpending = 0, transportIncreasePctSpokesSpending = 0,
       netImpactPctSpokesSpending = 0,
       spokeBreakdown = [],
       warnings = [],
       missing = \<lparr> missing_budgets = [], missing_enrollment = [], missing_anchors = [] \<rparr>,
       ok = False \<rparr>"

subsection \<open>The join loop (lines 84 to 94)\<close>

record JoinState =
  missingBudgets :: "string list"
  missingEnrollment :: "string list"
  missingAnchors :: "string list"
  joinWarnings :: "string list"

text \<open>
  \<open>!e || !e.total || e.total <= 0\<close>: an inherited member is truthy and its \<open>total\<close>
  is \<open>undefined\<close>, so the second test holds. \<open>b?.flags?.length\<close>: an inherited
  member has no \<open>flags\<close>.
\<close>

definition enrollmentMissing :: "DistrictEnrollment property \<Rightarrow> bool" where
  "enrollmentMissing e =
     (case e of
        Undefined \<Rightarrow> True
      | Inherited \<Rightarrow> True
      | Own r \<Rightarrow> total r = 0 \<or> total r \<le> 0)"

definition flagWarnings :: "DistrictBudget property \<Rightarrow> string list" where
  "flagWarnings b =
     (case b of
        Own r \<Rightarrow> map (\<lambda>f. budget_displayName r @ '': '' @ f) (budget_flags r)
      | _ \<Rightarrow> [])"

definition joinStep ::
  "BudgetsMap \<Rightarrow> LeaEnrollmentMap \<Rightarrow> DistrictAnchorsMap \<Rightarrow> string \<Rightarrow> JoinState \<Rightarrow> JoinState"
where
  "joinStep budgets enrollments anchors k st =
     (let b = getProperty budgets k; e = getProperty enrollments k; a = getProperty anchors k
      in \<lparr> missingBudgets =
             (if b = Undefined then missingBudgets st @ [k] else missingBudgets st),
           missingEnrollment =
             (if enrollmentMissing e then missingEnrollment st @ [k] else missingEnrollment st),
           missingAnchors =
             (if a = Undefined then missingAnchors st @ [k] else missingAnchors st),
           joinWarnings = joinWarnings st @ flagWarnings b \<rparr>)"

fun joinLoop ::
  "BudgetsMap \<Rightarrow> LeaEnrollmentMap \<Rightarrow> DistrictAnchorsMap \<Rightarrow> string list \<Rightarrow> JoinState \<Rightarrow> JoinState"
where
  "joinLoop budgets enrollments anchors [] st = st"
| "joinLoop budgets enrollments anchors (k # ks) st =
     joinLoop budgets enrollments anchors ks (joinStep budgets enrollments anchors k st)"

definition joinInit :: JoinState where
  "joinInit = \<lparr> missingBudgets = [], missingEnrollment = [], missingAnchors = [],
                joinWarnings = [] \<rparr>"

subsection \<open>Hub selection (lines 104 to 109)\<close>

text \<open>
  The loops after the missing-data return read \<open>enrollments[k]\<close>, \<open>budgets[k]\<close> and
  \<open>anchors[k]\<close> without a check; they are reached only when no lookup was
  \<open>undefined\<close> and every enrollment record is an own property with a positive total.
\<close>

fun hubLoop :: "LeaEnrollmentMap \<Rightarrow> string list \<Rightarrow> string \<times> real \<Rightarrow> string \<times> real" where
  "hubLoop enrollments [] (hKey, hEnroll) = (hKey, hEnroll)"
| "hubLoop enrollments (k # ks) (hKey, hEnroll) =
     (let t = total (recordAt enrollments k)
      in if t > hEnroll then hubLoop enrollments ks (k, t)
         else hubLoop enrollments ks (hKey, hEnroll))"

definition selectHub :: "LeaEnrollmentMap \<Rightarrow> string list \<Rightarrow> string" where
  "selectHub enrollments unique = fst (hubLoop enrollments unique (hd unique, 0))"

subsection \<open>Combined totals (lines 114 to 125)\<close>

record Totals =
  tot_combinedEnrollment :: real
  tot_combinedSpending :: real
  tot_adminBaselineSpokes :: real

fun totalsLoop ::
  "BudgetsMap \<Rightarrow> LeaEnrollmentMap \<Rightarrow> string \<Rightarrow> string list \<Rightarrow> Totals \<Rightarrow> Totals"
where
  "totalsLoop budgets enrollments hub [] acc = acc"
| "totalsLoop budgets enrollments hub (k # ks) acc =
     totalsLoop budgets enrollments hub ks
       \<lparr> tot_combinedEnrollment = tot_combinedEnrollment acc + total (recordAt enrollments k),
         tot_combinedSpending = tot_combinedSpending acc + totalExpenditures (recordAt budgets k),
         tot_adminBaselineSpokes =
           (if k \<noteq> hub
            then tot_adminBaselineSpokes acc + centralAdministrationModel (recordAt budgets k)
            else tot_adminBaselineSpokes acc) \<rparr>"

subsection \<open>Spokes: transportation and breakdown (lines 130 to 152)\<close>

text \<open>
  \<open>dist.toFixed(1)\<close> is only called on a distance above 60: the nearest number of
  tenths, ties upwards, printed as the integer part, a point and one digit.
\<close>

definition digitChar :: "nat \<Rightarrow> char" where
  "digitChar d = char_of (48 + d)"

function natToString :: "nat \<Rightarrow> string" where
  "natToString n =
     (if n < 10 then [digitChar n] else natToString (n div 10) @ [digitChar (n mod 10)])"
  by pat_completeness auto
termination
  by (relation "measure id") auto

definition toFixed1 :: "real \<Rightarrow> string" where
  "toFixed1 x =
     (let n = nat \<lfloor>x * 10 + 1 / 2\<rfloor>
      in natToString (n div 10) @ ''.'' @ [digitChar (n mod 10)])"

record SpokeState =
  sp_breakdown :: "SpokeDetail list"
  sp_transportationIncrease :: real
  sp_warnings :: "string list"

definition spokeStep ::
  "LeaEnrollmentMap \<Rightarrow> DistrictAnchorsMap \<Rightarrow> DistrictAnchor \<Rightarrow> real \<Rightarrow> real \<Rightarrow> string
     \<Rightarrow> SpokeState \<Rightarrow> SpokeState"
where
  "spokeStep enrollments anchors hubAnchor share cpsm k st =
     (let a = recordAt anchors k;
          dist = milesBetween \<lparr> lat = anchor_lat a, lon = anchor_lon a \<rparr>
                              \<lparr> lat = anchor_lat hubAnchor, lon = anchor_lon hubAnchor \<rparr>;
          w = (if dist > 60
               then sp_warnings st
                    @ [anchor_displayName a @ '': distance '' @ toFixed1 dist @ '' mi seems high'']
               else sp_warnings st);
          enr = total (recordAt enrollments k);
          c = dist * enr * share * cpsm
      in \<lparr> sp_breakdown = sp_breakdown st
             @ [\<lparr> key = k, name = anchor_displayName (recordAt anchors k), enrollment = enr,
                  distanceMiles = Math_round (dist * 10) / 10, cost = Math_round c \<rparr>],
           sp_transportationIncrease = sp_transportationIncrease st + c,
           sp_warnings = w \<rparr>)"

fun spokeLoop ::
  "LeaEnrollmentMap \<Rightarrow> DistrictAnchorsMap \<Rightarrow> string \<Rightarrow> DistrictAnchor \<Rightarrow> real \<Rightarrow> real
     \<Rightarrow> string list \<Rightarrow> SpokeState \<Rightarrow> SpokeState"
where
  "spokeLoop enrollments anchors hub hubAnchor share cpsm [] st = st"
| "spokeLoop enrollments anchors hub hubAnchor share cpsm (k # ks) st =
     (if k = hub then spokeLoop enrollments anchors hub hubAnchor share cpsm ks st
      else spokeLoop enrollments anchors hub hubAnchor share cpsm ks
             (spokeStep enrollments anchors hubAnchor share cpsm k st))"

text \<open>
  \<open>Array.prototype.sort\<close> with a comparator is a stable sort: an element goes before
  the first element that the comparator does not put before it.
\<close>

fun insertBy :: "('a \<Rightarrow> 'a \<Rightarrow> real) \<Rightarrow> 'a \<Rightarrow> 'a list \<Rightarrow> 'a list" where
  "insertBy cmp x [] = [x]"
| "insertBy cmp x (y # ys) = (if cmp x y \<le> 0 then x # y # ys else y # insertBy cmp x ys)"

fun sortBy :: "('a \<Rightarrow> 'a \<Rightarrow> real) \<Rightarrow> 'a list \<Rightarrow> 'a list" where
  "sortBy cmp [] = []"
| "sortBy cmp (x # xs) = insertBy cmp x (sortBy cmp xs)"

definition safePct :: "real \<Rightarrow> real \<Rightarrow> real" where
  "safePct num den = (if den > 0 then num / den else 0)"

subsection \<open>computeConsolidationV1\<close>

definition computeConsolidationV1 ::
  "string list \<Rightarrow> BudgetsMap \<Rightarrow> LeaEnrollmentMap \<Rightarrow> DistrictAnchorsMap
     \<Rightarrow> ConsolidationParamsV1 \<Rightarrow> ConsolidationResultV1"
where
  "computeConsolidationV1 selectedKeys budgets enrollments anchors params =
     (let rate = numOf (clamp (Num (adminReductionRate params)) (Num 0) (Num 1));
          cpsm = numOf (Math_max (Num 0) (Num (costPerStudentMile params)));
          share = numOf (clamp (Num (affectedShare params)) (Num 0) (Num 1));
          unique = uniqueOf selectedKeys
      in if length unique < 2
         then empty_result \<lparr> warnings := [''Select at least 2 districts''] \<rparr>
         else
           let js = joinLoop budgets enrollments anchors unique joinInit
           in if missingBudgets js \<noteq> [] \<or> missingEnrollment js \<noteq> [] \<or> missingAnchors js \<noteq> []
              then empty_result
                     \<lparr> warnings := joinWarnings js,
                       missing := \<lparr> missing_budgets = missingBudgets js,
                                    missing_enrollment = missingEnrollment js,
                                    missing_anchors = missingAnchors js \<rparr> \<rparr>
              else
                let hub = selectHub enrollments unique;
                    hubAnchor = recordAt anchors hub;
                    hubBudget = recordAt budgets hub;
                    tot = totalsLoop budgets enrollments hub unique
                            \<lparr> tot_combinedEnrollment = 0, tot_combinedSpending = 0,
                              tot_adminBaselineSpokes = 0 \<rparr>;
                    cEnrollment = tot_combinedEnrollment tot;
                    cSpending = tot_combinedSpending tot;
                    aBaselineSpokes = tot_adminBaselineSpokes tot;
                    aBaselineHub = centralAdministrationModel hubBudget;
                    bPerPupil = (if cEnrollment > 0 then cSpending / cEnrollment else 0);
                    aSavings = rate * aBaselineSpokes;
                    sp = spokeLoop enrollments anchors hub hubAnchor share cpsm unique
                           \<lparr> sp_breakdown = [], sp_transportationIncrease = 0,
                             sp_warnings = joinWarnings js \<rparr>;
                    breakdown = sortBy (\<lambda>a b. cost b - cost a) (sp_breakdown sp);
                    tIncrease = sp_transportationIncrease sp;
                    nImpact = aSavings - tIncrease;
                    pSpending = cSpending - nImpact;
                    pPerPupil = (if cEnrollment > 0 then pSpending / cEnrollment else 0);
                    hSpending = totalExpenditures hubBudget;
                    sSpending = cSpending - hSpending
                in \<lparr> hubKey = hub,
                     hubName = anchor_displayName hubAnchor,
                     combinedEnrollment = cEnrollment,
                     combinedSpending = cSpending,
                     hubSpending = hSpending,
                     spokesSpending = sSpending,
                     baselinePerPupil = bPerPupil,
                     adminBaselineHub = aBaselineHub,
                     adminBaselineSpokes = aBaselineSpokes,
                     adminSavings = aSavings,
                     transportationIncrease = tIncrease,
                     netImpact = nImpact,
                     projectedSpending = pSpending,
                     projectedPerPupil = pPerPupil,
                     adminSavingsPctCombined = safePct aSavings cSpending,
                     transportIncreasePctCombined = safePct tIncrease cSpending,
                     netImpactPctCombined = safePct nImpact cSpending,
                     adminSavingsPctSpokesSpending = safePct aSavings sSpending,
                     transportIncreasePctSpokesSpending = safePct tIncrease sSpending,
                     netImpactPctSpokesSpending = safePct nImpact sSpending,
                     spokeBreakdown = breakdown,
                     warnings = sp_warnings sp,
                     missing = \<lparr> missing_budgets = [], missing_enrollment = [],
                                  missing_anchors = [] \<rparr>,
                     ok = True \<rparr>)"

section \<open>Key normalizer (scripts/lib/normalize.ts, frontend/src/lib/enrollment.ts)\<close>

text \<open>
  A string is a list of code units, and \<open>char\<close> holds the code units \<open>U+0000\<close> to
  \<open>U+00FF\<close>; strings with a code unit above \<open>U+00FF\<close> are outside the embedding, so of
  the three dashes of the class \<open>[-\<dots>]\<close> only the hyphen can occur.

  \<open>isSpace\<close> is the class \<open>\s\<close> (tab, line feed, vertical tab, form feed, carriage
  return, space, no-break space), which is also what \<open>trim\<close> removes; \<open>isWord\<close> is
  the class \<open>\w\<close>, the letters, digits and underscore of ASCII; \<open>toLowerCase\<close> maps
  \<open>A\<close> to \<open>Z\<close> and the capital letters \<open>U+00C0\<close> to \<open>U+00DE\<close> (but not the
  multiplication sign \<open>U+00D7\<close>) to the letter 32 above.
\<close>

definition isSpace :: "char \<Rightarrow> bool" where
  "isSpace c = (c \<in> set [CHR 0x09, CHR 0x0A, CHR 0x0B, CHR 0x0C, CHR 0x0D, CHR 0x20, CHR 0xA0])"

definition isWord :: "char \<Rightarrow> bool" where
  "isWord c =
     (let n = (of_char c :: nat)
      in (48 \<le> n \<and> n \<le> 57) \<or> (65 \<le> n \<and> n \<le> 90) \<or> n = 95 \<or> (97 \<le> n \<and> n \<le> 122))"

definition toLowerChar :: "char \<Rightarrow> char" where
  "toLowerChar c =
     (let n = (of_char c :: nat)
      in if (65 \<le> n \<and> n \<le> 90) \<or> (192 \<le> n \<and> n \<le> 222 \<and> n \<noteq> 215)
         then char_of (n + 32) else c)"

definition toLowerCase :: "string \<Rightarrow> string" where
  "toLowerCase s = map toLowerChar s"

definition trim :: "string \<Rightarrow> string" where
  "trim s = rev (dropWhile isSpace (rev (dropWhile isSpace s)))"

text \<open>
  \<open>.replace(/\s*&\s*/g, ' and ')\<close>. A match starts at a position when the run of
  spaces there (possibly empty) is followed by an ampersand, and it takes the spaces after
  the ampersand too; the search goes on after the match. With no match at a position, its
  character is kept.
\<close>

function replaceAmp :: "string \<Rightarrow> string" where
  "replaceAmp [] = []"
| "replaceAmp (c # cs) =
     (case dropWhile isSpace (c # cs) of
        [] \<Rightarrow> c # replaceAmp cs
      | d # ds \<Rightarrow> if d = CHR ''&'' then '' and '' @ replaceAmp (dropWhile isSpace ds)
                  else c # replaceAmp cs)"
  by pat_completeness auto
termination
proof (relation "measure length")
  fix c cs d ds
  assume "dropWhile isSpace (c # cs) = d # ds"
  then have "length (d # ds) \<le> length (c # cs)"
    by (metis length_dropWhile_le)
  moreover have "length (dropWhile isSpace ds) \<le> length ds"
    by (rule length_dropWhile_le)
  ultimately show "(dropWhile isSpace ds, c # cs) \<in> measure length"
    by simp
qed simp_all

text \<open>\<open>.replace(/[-\<dots>]/g, ' ')\<close> and \<open>.replace(/[^\w\s]/g, '')\<close>.\<close>

definition replaceDash :: "string \<Rightarrow> string" where
  "replaceDash s = map (\<lambda>c. if c = CHR ''-'' then CHR '' '' else c) s"

definition stripPunct :: "string \<Rightarrow> string" where
  "stripPunct s = filter (\<lambda>c. isWord c \<or> isSpace c) s"

text \<open>
  \<open>.replace(/\s*\([^)]*\)\s*/g, ' ')\<close>. A match starts at a position when the run of
  spaces there is followed by an opening parenthesis and a closing parenthesis occurs
  later; it ends after the spaces that follow the first closing parenthesis.
\<close>

function replaceParens :: "string \<Rightarrow> string" where
  "replaceParens [] = []"
| "replaceParens (c # cs) =
     (case dropWhile isSpace (c # cs) of
        [] \<Rightarrow> c # replaceParens cs
      | d # ds \<Rightarrow>
          if d = CHR ''(''
          then (case dropWhile (\<lambda>x. x \<noteq> CHR '')'') ds of
                  [] \<Rightarrow> c # replaceParens cs
                | e # es \<Rightarrow> CHR '' '' # replaceParens (dropWhile isSpace es))
          else c # replaceParens cs)"
  by pat_completeness auto
termination
proof (relation "measure length")
  fix c cs d ds e es
  assume "dropWhile isSpace (c # cs) = d # ds" "dropWhile (\<lambda>x. x \<noteq> CHR '')'') ds = e # es"
  then have "length (d # ds) \<le> length (c # cs)" "length (e # es) \<le> length ds"
    by (metis length_dropWhile_le)+
  moreover have "length (dropWhile isSpace es) \<le> length es"
    by (rule length_dropWhile_le)
  ultimately show "(dropWhile isSpace es, c # cs) \<in> measure length"
    by simp
qed simp_all

text \<open>\<open>.replace(/\s+/g, ' ')\<close>: every run of spaces becomes one space.\<close>

function collapseSpaces :: "string \<Rightarrow> string" where
  "collapseSpaces [] = []"
| "collapseSpaces (c # cs) =
     (if isSpace c then CHR '' '' # collapseSpaces (dropWhile isSpace cs)
      else c # collapseSpaces cs)"
  by pat_completeness auto
termination
  by (relation "measure length") (simp_all add: length_dropWhile_le less_Suc_eq_le)

text \<open>
  The two suffix loops: the first suffix of the list that \<open>t\<close> ends with is cut off
  (\<open>t.slice(0, -suf.length).trim()\<close>) and the loop is left (\<open>break\<close>).
\<close>

definition endsWith :: "string \<Rightarrow> string \<Rightarrow> bool" where
  "endsWith t suf = (length suf \<le> length t \<and> drop (length t - length suf) t = suf)"

fun stripSuffixes :: "string list \<Rightarrow> string \<Rightarrow> string" where
  "stripSuffixes [] t = t"
| "stripSuffixes (suf # sufs) t =
     (if endsWith t suf then trim (take (length t - length suf) t)
      else stripSuffixes sufs t)"

definition suffixes :: "string list" where
  "suffixes = ['' regional school district'', '' school district'', '' public schools'']"

definition levelSuffixes :: "string list" where
  "levelSuffixes = ['' elementary'', '' secondary'']"

text \<open>\<open>cleanName\<close> is the chain of calls that gives \<open>t\<close> its first value.\<close>

definition cleanName :: "string \<Rightarrow> string" where
  "cleanName s =
     trim (collapseSpaces (replaceParens (stripPunct (replaceDash (replaceAmp
       (trim (toLowerCase s)))))))"

definition normalizeDistrictName :: "string \<Rightarrow> string" where
  "normalizeDistrictName s =
     (if s = [] then []
      else stripSuffixes levelSuffixes (stripSuffixes suffixes (cleanName s)))"

subsection \<open>District keys\<close>

text \<open>
  \<open>districtKey\<close> of scripts/lib/normalize.ts with its alias table, and
  \<open>normalizeForKey\<close> and \<open>districtKey\<close> of frontend/src/lib/enrollment.ts with
  theirs (prefixed \<open>enrollment_\<close>). The bodies of \<open>normalizeDistrictName\<close> and
  \<open>normalizeForKey\<close> are the same text in the two files.
\<close>

definition DISTRICT_ALIASES :: "string \<rightharpoonup> string" where
  "DISTRICT_ALIASES = [''bistol warren regional district'' \<mapsto> ''bristol warren'']"

definition districtKey :: "string \<Rightarrow> string" where
  "districtKey nm =
     (let k = normalizeDistrictName nm
      in case DISTRICT_ALIASES k of Some v \<Rightarrow> v | None \<Rightarrow> k)"

definition normalizeForKey :: "string \<Rightarrow> string" where
  "normalizeForKey s =
     (if s = [] then []
      else stripSuffixes levelSuffixes (stripSuffixes suffixes (cleanName s)))"

definition enrollment_DISTRICT_ALIASES :: "string \<rightharpoonup> string" where
  "enrollment_DISTRICT_ALIASES = Map.empty"

definition enrollment_districtKey :: "string \<Rightarrow> string" where
  "enrollment_districtKey nm =
     (let k = normalizeForKey nm
      in case enrollment_DISTRICT_ALIASES k of Some v \<Rightarrow> v | None \<Rightarrow> k)"

subsection \<open>Normal form of a cleaned name (used in the proofs)\<close>

definition keyChar :: "char \<Rightarrow> bool" where
  "keyChar c = (c = CHR '' '' \<or> (isWord c \<and> toLowerChar c = c))"

fun spaced :: "string \<Rightarrow> bool" where
  "spaced [] = True"
| "spaced (c # cs) =
     ((if isSpace c then c = CHR '' '' \<and> (cs = [] \<or> \<not> isSpace (hd cs)) else True) \<and> spaced cs)"

definition trimmed :: "string \<Rightarrow> bool" where
  "trimmed t = (t = [] \<or> (\<not> isSpace (hd t) \<and> \<not> isSpace (last t)))"

definition normalForm :: "string \<Rightarrow> bool" where
  "normalForm t = (list_all keyChar t \<and> spaced t \<and> trimmed t)"

section \<open>Example data\<close>

definition ex_budgets :: BudgetsMap where
  "ex_budgets =
     [''a'' \<mapsto> \<lparr> budget_displayName = ''Alpha'', totalExpenditures = 9000000,
                  centralAdministrationModel = 500000, budget_flags = [''admin_share_outlier''] \<rparr>,
      ''b'' \<mapsto> \<lparr> budget_displayName = ''Beta'', totalExpenditures = 4000000,
                  centralAdministrationModel = 100000, budget_flags = [] \<rparr>,
      ''c'' \<mapsto> \<lparr> budget_displayName = ''Gamma'', totalExpenditures = 2000000,
                  centralAdministrationModel = 80000, budget_flags = [] \<rparr>]"

definition ex_enrollments :: LeaEnrollmentMap where
  "ex_enrollments =
     [''a'' \<mapsto> \<lparr> total = 5000 \<rparr>, ''b'' \<mapsto> \<lparr> total = 5000 \<rparr>, ''c'' \<mapsto> \<lparr> total = 2000 \<rparr>,
      ''d'' \<mapsto> \<lparr> total = 0 \<rparr>]"

definition ex_anchors :: DistrictAnchorsMap where
  "ex_anchors =
     [''a'' \<mapsto> \<lparr> anchor_displayName = ''Alpha High'', anchor_lat = 418 / 10, anchor_lon = - 714 / 10 \<rparr>,
      ''b'' \<mapsto> \<lparr> anchor_displayName = ''Beta High'', anchor_lat = 417 / 10, anchor_lon = - 715 / 10 \<rparr>,
      ''c'' \<mapsto> \<lparr> anchor_displayName = ''Gamma High'', anchor_lat = 415 / 10, anchor_lon = - 716 / 10 \<rparr>]"


definition ex_params :: ConsolidationParamsV1 where
  "ex_params = \<lparr> adminReductionRate = 1 / 2, costPerStudentMile = 3, affectedShare = 1 \<rparr>"

section \<open>Properties of the estimator\<close>

lemma clamp_Num: "clamp (Num v) (Num lo) (Num hi) = Num (max lo (min hi v))"
  by (simp add: clamp_def Math_max_def Math_min_def)

lemma numOf_clamp: "numOf (clamp (Num v) (Num 0) (Num 1)) = max 0 (min 1 v)"
  by (simp add: clamp_Num numOf_def)

lemma numOf_Math_max: "numOf (Math_max (Num 0) (Num c)) = max 0 c"
  by (simp add: Math_max_def numOf_def)


lemma recordAt_Some: "obj k = Some r \<Longrightarrow> recordAt obj k = r"
  by (simp add: recordAt_def getProperty_def)

lemma set_setAddAll: "set (setAddAll acc ks) = set acc \<union> set ks"
  by (induction ks arbitrary: acc) auto

lemma distinct_setAddAll: "distinct acc \<Longrightarrow> distinct (setAddAll acc ks)"
  by (induction ks arbitrary: acc) auto

lemma set_uniqueOf: "set (uniqueOf ks) = set ks"
  by (simp add: uniqueOf_def set_setAddAll)

lemma distinct_uniqueOf: "distinct (uniqueOf ks)"
  by (simp add: uniqueOf_def distinct_setAddAll)

lemma joinLoop_missingBudgets:
  "missingBudgets (joinLoop b e a ks st) = missingBudgets st @ filter (\<lambda>k. getProperty b k = Undefined) ks"
  by (induction ks arbitrary: st) (simp_all add: joinStep_def Let_def)

lemma joinLoop_missingEnrollment:
  "missingEnrollment (joinLoop b e a ks st)
     = missingEnrollment st @ filter (\<lambda>k. enrollmentMissing (getProperty e k)) ks"
  by (induction ks arbitrary: st) (simp_all add: joinStep_def Let_def)

lemma joinLoop_missingAnchors:
  "missingAnchors (joinLoop b e a ks st) = missingAnchors st @ filter (\<lambda>k. getProperty a k = Undefined) ks"
  by (induction ks arbitrary: st) (simp_all add: joinStep_def Let_def)

lemma joinLoop_joinWarnings:
  "joinWarnings (joinLoop b e a ks st)
     = joinWarnings st @ concat (map (\<lambda>k. flagWarnings (getProperty b k)) ks)"
  by (induction ks arbitrary: st) (simp_all add: joinStep_def Let_def)

lemma enrollmentMissing_iff:
  "enrollmentMissing (getProperty e k) \<longleftrightarrow> \<not> (\<exists>r. e k = Some r \<and> 0 < total r)"
  by (auto simp: enrollmentMissing_def getProperty_def split: option.splits)


lemma compute_few:
  "length (uniqueOf sel) < 2 \<Longrightarrow>
   computeConsolidationV1 sel b e a p
     = empty_result \<lparr> warnings := [''Select at least 2 districts''] \<rparr>"
  by (simp add: computeConsolidationV1_def)

lemma compute_missing:
  assumes "2 \<le> length (uniqueOf sel)"
      and "\<exists>k \<in> set sel. getProperty b k = Undefined \<or> enrollmentMissing (getProperty e k) \<or> getProperty a k = Undefined"
  shows "computeConsolidationV1 sel b e a p
     = empty_result
         \<lparr> warnings := concat (map (\<lambda>k. flagWarnings (getProperty b k)) (uniqueOf sel)),
           missing := \<lparr> missing_budgets = filter (\<lambda>k. getProperty b k = Undefined) (uniqueOf sel),
                        missing_enrollment = filter (\<lambda>k. enrollmentMissing (getProperty e k)) (uniqueOf sel),
                        missing_anchors = filter (\<lambda>k. getProperty a k = Undefined) (uniqueOf sel) \<rparr> \<rparr>"
proof -
  from assms(2) obtain k where k: "k \<in> set (uniqueOf sel)"
    "getProperty b k = Undefined \<or> enrollmentMissing (getProperty e k) \<or> getProperty a k = Undefined"
    by (auto simp: set_uniqueOf)
  then have "filter (\<lambda>k. getProperty b k = Undefined) (uniqueOf sel) \<noteq> []
      \<or> filter (\<lambda>k. enrollmentMissing (getProperty e k)) (uniqueOf sel) \<noteq> []
      \<or> filter (\<lambda>k. getProperty a k = Undefined) (uniqueOf sel) \<noteq> []"
    by (auto simp: filter_empty_conv)
  with assms(1) show ?thesis
    unfolding computeConsolidationV1_def Let_def
    by (simp add: joinLoop_missingBudgets joinLoop_missingEnrollment joinLoop_missingAnchors
        joinLoop_joinWarnings joinInit_def)
qed

lemma hubLoop_cases:
  "(hubLoop e ks (h, m) = (h, m) \<and> (\<forall>k \<in> set ks. total (recordAt e k) \<le> m))
   \<or> (\<exists>pre post h'. ks = pre @ h' # post
         \<and> hubLoop e ks (h, m) = (h', total (recordAt e h'))
         \<and> m < total (recordAt e h')
         \<and> (\<forall>k \<in> set pre. total (recordAt e k) < total (recordAt e h'))
         \<and> (\<forall>k \<in> set post. total (recordAt e k) \<le> total (recordAt e h')))"
proof (induction ks arbitrary: h m)
  case Nil
  then show ?case by simp
next
  case (Cons k ks)
  let ?t = "total (recordAt e k)"
  show ?case
  proof (cases "m < ?t")
    case True
    from Cons.IH [of k ?t] show ?thesis
    proof (elim disjE conjE exE)
      assume "hubLoop e ks (k, ?t) = (k, ?t)" "\<forall>x \<in> set ks. total (recordAt e x) \<le> ?t"
      with True have "k # ks = [] @ k # ks \<and> hubLoop e (k # ks) (h, m) = (k, ?t)
          \<and> m < ?t \<and> (\<forall>x \<in> set []. total (recordAt e x) < ?t)
          \<and> (\<forall>x \<in> set ks. total (recordAt e x) \<le> ?t)"
        by simp
      then show ?thesis by blast
    next
      fix pre post h'
      assume a: "ks = pre @ h' # post" "hubLoop e ks (k, ?t) = (h', total (recordAt e h'))"
        "?t < total (recordAt e h')"
        "\<forall>x \<in> set pre. total (recordAt e x) < total (recordAt e h')"
        "\<forall>x \<in> set post. total (recordAt e x) \<le> total (recordAt e h')"
      with True have "k # ks = (k # pre) @ h' # post
          \<and> hubLoop e (k # ks) (h, m) = (h', total (recordAt e h'))
          \<and> m < total (recordAt e h')
          \<and> (\<forall>x \<in> set (k # pre). total (recordAt e x) < total (recordAt e h'))
          \<and> (\<forall>x \<in> set post. total (recordAt e x) \<le> total (recordAt e h'))"
        by simp
      then show ?thesis by blast
    qed
  next
    case False
    from Cons.IH [of h m] show ?thesis
    proof (elim disjE conjE exE)
      assume "hubLoop e ks (h, m) = (h, m)" "\<forall>x \<in> set ks. total (recordAt e x) \<le> m"
      with False show ?thesis by simp
    next
      fix pre post h'
      assume a: "ks = pre @ h' # post" "hubLoop e ks (h, m) = (h', total (recordAt e h'))"
        "m < total (recordAt e h')"
        "\<forall>x \<in> set pre. total (recordAt e x) < total (recordAt e h')"
        "\<forall>x \<in> set post. total (recordAt e x) \<le> total (recordAt e h')"
      with False have "k # ks = (k # pre) @ h' # post
          \<and> hubLoop e (k # ks) (h, m) = (h', total (recordAt e h'))
          \<and> m < total (recordAt e h')
          \<and> (\<forall>x \<in> set (k # pre). total (recordAt e x) < total (recordAt e h'))
          \<and> (\<forall>x \<in> set post. total (recordAt e x) \<le> total (recordAt e h'))"
        by simp
      then show ?thesis by blast
    qed
  qed
qed

lemma selectHub_split:
  assumes "ks \<noteq> []" and "\<forall>k \<in> set ks. 0 < total (recordAt e k)"
  shows "\<exists>pre post h. ks = pre @ h # post \<and> selectHub e ks = h
         \<and> (\<forall>k \<in> set pre. total (recordAt e k) < total (recordAt e h))
         \<and> (\<forall>k \<in> set post. total (recordAt e k) \<le> total (recordAt e h))"
proof -
  from assms obtain k where "k \<in> set ks" "0 < total (recordAt e k)"
    by (cases ks) auto
  then have "\<not> (\<forall>k \<in> set ks. total (recordAt e k) \<le> 0)"
    by (auto simp: not_le)
  with hubLoop_cases [of e ks "hd ks" 0] obtain pre post h' where
    "ks = pre @ h' # post" "hubLoop e ks (hd ks, 0) = (h', total (recordAt e h'))"
    "\<forall>k \<in> set pre. total (recordAt e k) < total (recordAt e h')"
    "\<forall>k \<in> set post. total (recordAt e k) \<le> total (recordAt e h')"
    by blast
  then have "ks = pre @ h' # post \<and> selectHub e ks = h'
         \<and> (\<forall>k \<in> set pre. total (recordAt e k) < total (recordAt e h'))
         \<and> (\<forall>k \<in> set post. total (recordAt e k) \<le> total (recordAt e h'))"
    by (simp add: selectHub_def)
  then show ?thesis by blast
qed


lemma mset_insertBy: "mset (insertBy cmp x ys) = add_mset x (mset ys)"
  by (induction ys) auto

lemma mset_sortBy: "mset (sortBy cmp xs) = mset xs"
  by (induction xs) (simp_all add: mset_insertBy)



lemma spokeLoop_entries:
  "map (\<lambda>s. (key s, enrollment s)) (sp_breakdown (spokeLoop e a hub ha share cpsm ks st))
     = map (\<lambda>s. (key s, enrollment s)) (sp_breakdown st)
       @ map (\<lambda>k. (k, total (recordAt e k))) (filter (\<lambda>k. k \<noteq> hub) ks)"
  by (induction ks arbitrary: st) (simp_all add: spokeStep_def Let_def)

lemma length_filter_neq:
  "distinct xs \<Longrightarrow> x \<in> set xs \<Longrightarrow> length (filter (\<lambda>k. k \<noteq> x) xs) = length xs - 1"
proof (induction xs)
  case Nil
  then show ?case by simp
next
  case (Cons y ys)
  show ?case
  proof (cases "y = x")
    case True
    with Cons.prems have "filter (\<lambda>k. k \<noteq> x) ys = ys"
      by (auto simp: filter_id_conv)
    with True show ?thesis by simp
  next
    case False
    with Cons have "length (filter (\<lambda>k. k \<noteq> x) ys) = length ys - 1" "ys \<noteq> []"
      by auto
    with False show ?thesis by (cases ys) auto
  qed
qed

lemma compute_ok_unfold:
  assumes "2 \<le> length (uniqueOf sel)"
      and "\<forall>k \<in> set sel. getProperty b k \<noteq> Undefined \<and> \<not> enrollmentMissing (getProperty e k) \<and> getProperty a k \<noteq> Undefined"
  shows "ok (computeConsolidationV1 sel b e a p)"
    and "hubKey (computeConsolidationV1 sel b e a p) = selectHub e (uniqueOf sel)"
    and "missing (computeConsolidationV1 sel b e a p)
           = \<lparr> missing_budgets = [], missing_enrollment = [], missing_anchors = [] \<rparr>"
    and "spokeBreakdown (computeConsolidationV1 sel b e a p)
           = sortBy (\<lambda>x y. cost y - cost x)
               (sp_breakdown
                 (spokeLoop e a (selectHub e (uniqueOf sel)) (recordAt a (selectHub e (uniqueOf sel)))
                    (max 0 (min 1 (affectedShare p))) (max 0 (costPerStudentMile p)) (uniqueOf sel)
                    \<lparr> sp_breakdown = [], sp_transportationIncrease = 0,
                      sp_warnings = concat (map (\<lambda>k. flagWarnings (getProperty b k)) (uniqueOf sel)) \<rparr>))"
proof -
  from assms(2) have none:
    "filter (\<lambda>k. getProperty b k = Undefined) (uniqueOf sel) = []"
    "filter (\<lambda>k. enrollmentMissing (getProperty e k)) (uniqueOf sel) = []"
    "filter (\<lambda>k. getProperty a k = Undefined) (uniqueOf sel) = []"
    by (auto simp: filter_empty_conv set_uniqueOf)
  note facts = computeConsolidationV1_def Let_def joinLoop_missingBudgets
    joinLoop_missingEnrollment joinLoop_missingAnchors joinLoop_joinWarnings joinInit_def none
    numOf_clamp numOf_Math_max
  from assms(1) show "ok (computeConsolidationV1 sel b e a p)"
    by (simp add: facts)
  from assms(1) show "hubKey (computeConsolidationV1 sel b e a p) = selectHub e (uniqueOf sel)"
    by (simp add: facts)
  from assms(1) show "missing (computeConsolidationV1 sel b e a p)
           = \<lparr> missing_budgets = [], missing_enrollment = [], missing_anchors = [] \<rparr>"
    by (simp add: facts)
  from assms(1) show "spokeBreakdown (computeConsolidationV1 sel b e a p)
           = sortBy (\<lambda>x y. cost y - cost x)
               (sp_breakdown
                 (spokeLoop e a (selectHub e (uniqueOf sel)) (recordAt a (selectHub e (uniqueOf sel)))
                    (max 0 (min 1 (affectedShare p))) (max 0 (costPerStudentMile p)) (uniqueOf sel)
                    \<lparr> sp_breakdown = [], sp_transportationIncrease = 0,
                      sp_warnings = concat (map (\<lambda>k. flagWarnings (getProperty b k)) (uniqueOf sel)) \<rparr>))"
    by (simp add: facts)
qed

lemma compute_ok_iff:
  "ok (computeConsolidationV1 sel b e a p) \<longleftrightarrow>
     2 \<le> length (uniqueOf sel)
     \<and> (\<forall>k \<in> set sel. getProperty b k \<noteq> Undefined \<and> \<not> enrollmentMissing (getProperty e k) \<and> getProperty a k \<noteq> Undefined)"
proof (cases "length (uniqueOf sel) < 2")
  case True
  then show ?thesis by (simp add: compute_few empty_result_def)
next
  case False
  then have two: "2 \<le> length (uniqueOf sel)" by simp
  show ?thesis
  proof (cases "\<exists>k \<in> set sel. getProperty b k = Undefined \<or> enrollmentMissing (getProperty e k) \<or> getProperty a k = Undefined")
    case True
    from compute_missing [OF two True, of p] True show ?thesis
      by (auto simp: empty_result_def)
  next
    case False
    then have all: "\<forall>k \<in> set sel. getProperty b k \<noteq> Undefined \<and> \<not> enrollmentMissing (getProperty e k) \<and> getProperty a k \<noteq> Undefined"
      by simp
    from two all compute_ok_unfold(1) [OF two all, of p] show ?thesis by simp
  qed
qed

lemma ex_ok: "ok (computeConsolidationV1 [''c'', ''a'', ''b'', ''a''] ex_budgets ex_enrollments ex_anchors ex_params)"
  by (simp add: compute_ok_iff uniqueOf_def ex_budgets_def ex_enrollments_def ex_anchors_def
      enrollmentMissing_def getProperty_def objectPrototypeKeys_def)






lemma ok_hub_mem:
  assumes "ok (computeConsolidationV1 sel b e a p)"
  shows "hubKey (computeConsolidationV1 sel b e a p) \<in> set (uniqueOf sel)"
proof -
  from assms have two: "2 \<le> length (uniqueOf sel)"
    and all: "\<forall>k \<in> set sel. getProperty b k \<noteq> Undefined \<and> \<not> enrollmentMissing (getProperty e k) \<and> getProperty a k \<noteq> Undefined"
    by (simp_all add: compute_ok_iff)
  from all have pos: "\<forall>k \<in> set (uniqueOf sel). 0 < total (recordAt e k)"
    by (fastforce simp: set_uniqueOf enrollmentMissing_iff recordAt_Some)
  from two have ne: "uniqueOf sel \<noteq> []" by auto
  from selectHub_split [OF ne pos] obtain pre post h where
    "uniqueOf sel = pre @ h # post" "selectHub e (uniqueOf sel) = h"
    by blast
  then show ?thesis
    using compute_ok_unfold(2) [OF two all, of p] by simp
qed

lemma ok_breakdown:
  assumes "ok (computeConsolidationV1 sel b e a p)"
  shows "mset (map (\<lambda>s. (key s, enrollment s)) (spokeBreakdown (computeConsolidationV1 sel b e a p)))
           = mset (map (\<lambda>k. (k, total (recordAt e k)))
                    (filter (\<lambda>k. k \<noteq> hubKey (computeConsolidationV1 sel b e a p)) (uniqueOf sel)))"
proof -
  from assms have two: "2 \<le> length (uniqueOf sel)"
    and all: "\<forall>k \<in> set sel. getProperty b k \<noteq> Undefined \<and> \<not> enrollmentMissing (getProperty e k) \<and> getProperty a k \<noteq> Undefined"
    by (simp_all add: compute_ok_iff)
  have "mset (map f (sortBy c xs)) = mset (map f xs)" for f :: "SpokeDetail \<Rightarrow> string \<times> real" and c xs
  proof -
    have "mset (map f (sortBy c xs)) = image_mset f (mset (sortBy c xs))" by simp
    also have "\<dots> = image_mset f (mset xs)" by (simp only: mset_sortBy)
    finally show ?thesis by simp
  qed
  then show ?thesis
    unfolding compute_ok_unfold(2,4) [OF two all]
    by (simp only: spokeLoop_entries) simp
qed

lemma ok_breakdown_length:
  assumes "ok (computeConsolidationV1 sel b e a p)"
  shows "length (spokeBreakdown (computeConsolidationV1 sel b e a p)) = length (uniqueOf sel) - 1"
proof -
  have "length (map (\<lambda>s. (key s, enrollment s)) (spokeBreakdown (computeConsolidationV1 sel b e a p)))
      = length (map (\<lambda>k. (k, total (recordAt e k)))
                 (filter (\<lambda>k. k \<noteq> hubKey (computeConsolidationV1 sel b e a p)) (uniqueOf sel)))"
    by (rule mset_eq_length [OF ok_breakdown [OF assms]])
  then have "length (spokeBreakdown (computeConsolidationV1 sel b e a p))
      = length (filter (\<lambda>k. k \<noteq> hubKey (computeConsolidationV1 sel b e a p)) (uniqueOf sel))"
    by simp
  also have "\<dots> = length (uniqueOf sel) - 1"
    by (rule length_filter_neq [OF distinct_uniqueOf ok_hub_mem [OF assms]])
  finally show ?thesis .
qed

section \<open>Properties of the key normalizer\<close>

subsection \<open>Characters\<close>

lemma isSpace_space: "isSpace (CHR '' '')"
  by (simp add: isSpace_def)

lemma of_char_less: "(of_char c :: nat) < 256"
  by (cases c) (simp add: of_char_def)

lemma toLowerChar_idem: "toLowerChar (toLowerChar c) = toLowerChar c"
proof -
  have "(of_char c :: nat) < 256" by (rule of_char_less)
  then show ?thesis
    by (auto simp: toLowerChar_def Let_def)
qed

lemma toLowerChar_space: "toLowerChar (CHR '' '') = CHR '' ''"
  by (simp add: toLowerChar_def)

lemma and_lowered: "c \<in> set '' and '' \<Longrightarrow> toLowerChar c = c"
  by (auto simp: toLowerChar_def)

lemma isWord_not_special:
  "isWord c \<Longrightarrow> c \<noteq> CHR ''&'' \<and> c \<noteq> CHR ''-'' \<and> c \<noteq> CHR ''('' \<and> \<not> isSpace c"
  by (auto simp: isWord_def isSpace_def)

subsection \<open>Trimming\<close>

lemma dropWhile_last:
  "xs \<noteq> [] \<Longrightarrow> \<not> P (last xs) \<Longrightarrow> dropWhile P xs \<noteq> [] \<and> last (dropWhile P xs) = last xs"
  by (induction xs) (auto split: if_splits)

lemma dropWhile_head: "dropWhile P xs \<noteq> [] \<Longrightarrow> \<not> P (hd (dropWhile P xs))"
  by (simp add: hd_dropWhile)

lemma trimmed_trim: "trimmed (trim u)"
proof (cases "dropWhile isSpace u = []")
  case True
  have "trim u = rev (dropWhile isSpace (rev (dropWhile isSpace u)))"
    by (simp only: trim_def)
  also have "\<dots> = []"
    by (simp only: True rev.simps dropWhile.simps)
  finally show ?thesis by (simp add: trimmed_def)
next
  case False
  let ?v = "dropWhile isSpace u"
  let ?w = "dropWhile isSpace (rev ?v)"
  from False have hv: "\<not> isSpace (hd ?v)" by (rule dropWhile_head)
  from False have rv: "rev ?v \<noteq> []" "\<not> isSpace (last (rev ?v))"
    using hv by (simp_all add: last_rev)
  from dropWhile_last [of "rev ?v" isSpace, OF rv] have w: "?w \<noteq> []" "last ?w = hd ?v"
    using False by (simp_all add: last_rev)
  from w(1) have "\<not> isSpace (hd ?w)" by (rule dropWhile_head)
  with w hv have "\<not> isSpace (hd (rev ?w))" "\<not> isSpace (last (rev ?w))"
    by (simp_all only: hd_rev last_rev rev_rev_ident not_False_eq_True)
  then show ?thesis by (simp only: trim_def trimmed_def) simp
qed

lemma trim_trimmed: "trimmed t \<Longrightarrow> trim t = t"
proof (cases "t = []")
  case True
  then show ?thesis by (simp add: trim_def)
next
  case False
  assume "trimmed t"
  with False have h: "\<not> isSpace (hd t)" and l: "\<not> isSpace (last t)"
    by (simp_all add: trimmed_def)
  from False h have a: "dropWhile isSpace t = t"
    by (cases t) simp_all
  from False l have "dropWhile isSpace (rev t) = rev t"
    by (cases "rev t") (simp_all add: hd_rev [symmetric])
  with a show ?thesis by (simp add: trim_def)
qed

lemma trimEnd_take: "rev (dropWhile P (rev v)) = take (length v - length (takeWhile P (rev v))) v"
  by (simp add: dropWhile_eq_drop rev_drop)

lemma trim_prefix_suffix: "\<exists>j k. trim u = take k (drop j u)"
proof -
  have "trim u = take (length (dropWhile isSpace u)
                       - length (takeWhile isSpace (rev (dropWhile isSpace u))))
                   (dropWhile isSpace u)"
    unfolding trim_def by (rule trimEnd_take)
  also have "dropWhile isSpace u = drop (length (takeWhile isSpace u)) u"
    by (rule dropWhile_eq_drop)
  finally show ?thesis by blast
qed

lemma set_trim: "set (trim u) \<subseteq> set u"
proof -
  obtain j k where "trim u = take k (drop j u)"
    using trim_prefix_suffix by blast
  then show ?thesis
    by (metis set_take_subset set_drop_subset subset_trans)
qed

subsection \<open>Single spaces\<close>

lemma spaced_drop: "spaced u \<Longrightarrow> spaced (drop n u)"
  by (induction u arbitrary: n) (auto simp: drop_Cons split: nat.splits)

lemma spaced_take: "spaced u \<Longrightarrow> spaced (take n u)"
proof (induction u arbitrary: n)
  case Nil
  then show ?case by simp
next
  case (Cons c cs)
  show ?case
  proof (cases n)
    case 0
    then show ?thesis by simp
  next
    case (Suc m)
    have "take m cs = [] \<or> hd (take m cs) = hd cs"
      by (cases m; cases cs) simp_all
    with Cons Suc show ?thesis
      by (auto split: if_splits)
  qed
qed

lemma spaced_trim: "spaced u \<Longrightarrow> spaced (trim u)"
proof -
  assume u: "spaced u"
  obtain j k where "trim u = take k (drop j u)"
    using trim_prefix_suffix by blast
  with u show ?thesis by (simp add: spaced_take spaced_drop)
qed

lemma collapseSpaces_hd:
  "u \<noteq> [] \<Longrightarrow> \<not> isSpace (hd u) \<Longrightarrow> collapseSpaces u \<noteq> [] \<and> hd (collapseSpaces u) = hd u"
  by (cases u) simp_all

lemma spaced_collapseSpaces: "spaced (collapseSpaces u)"
proof (induction u rule: collapseSpaces.induct)
  case 1
  then show ?case by simp
next
  case (2 c cs)
  show ?case
  proof (cases "isSpace c")
    case True
    let ?r = "dropWhile isSpace cs"
    have "collapseSpaces ?r = [] \<or> \<not> isSpace (hd (collapseSpaces ?r))"
    proof (cases "?r = []")
      case True
      then show ?thesis by (simp only: collapseSpaces.simps) simp
    next
      case False
      then have "\<not> isSpace (hd ?r)" by (rule dropWhile_head)
      with False collapseSpaces_hd [of ?r] show ?thesis by simp
    qed
    with True 2 show ?thesis by (simp add: isSpace_space)
  next
    case False
    with 2 show ?thesis by simp
  qed
qed

lemma collapseSpaces_spaced: "spaced u \<Longrightarrow> collapseSpaces u = u"
proof (induction u)
  case Nil
  then show ?case by simp
next
  case (Cons c cs)
  show ?case
  proof (cases "isSpace c")
    case True
    with Cons.prems have c: "c = CHR '' ''" and "cs = [] \<or> \<not> isSpace (hd cs)"
      by simp_all
    then have "dropWhile isSpace cs = cs"
      by (cases cs) auto
    with True c Cons show ?thesis by simp
  next
    case False
    with Cons show ?thesis by simp
  qed
qed

subsection \<open>Characters of a cleaned name\<close>

lemma set_collapseSpaces:
  "c \<in> set (collapseSpaces u) \<Longrightarrow> c = CHR '' '' \<or> (c \<in> set u \<and> \<not> isSpace c)"
proof (induction u rule: collapseSpaces.induct)
  case 1
  then show ?case by simp
next
  case (2 d ds)
  show ?case
  proof (cases "isSpace d")
    case True
    with 2 have "c = CHR '' '' \<or> c \<in> set (collapseSpaces (dropWhile isSpace ds))"
      by simp
    with 2 True show ?thesis
      by (auto dest: set_dropWhileD)
  next
    case False
    with 2 show ?thesis by auto
  qed
qed

lemma set_replaceParens: "c \<in> set (replaceParens u) \<Longrightarrow> c = CHR '' '' \<or> c \<in> set u"
proof (induction u rule: replaceParens.induct)
  case 1
  then show ?case by simp
next
  case (2 d ds)
  show ?case
  proof (cases "dropWhile isSpace (d # ds)")
    case Nil
    with 2 show ?thesis by (auto simp del: dropWhile.simps)
  next
    case (Cons p ps)
    note outer = Cons
    show ?thesis
    proof (cases "p = CHR ''(''")
      case False
      with 2 outer show ?thesis by (auto simp del: dropWhile.simps)
    next
      case True
      show ?thesis
      proof (cases "dropWhile (\<lambda>x. x \<noteq> CHR '')'') ps")
        case Nil
        with 2 outer True show ?thesis by (auto simp del: dropWhile.simps)
      next
        case (Cons q qs)
        from outer have "set ps \<subseteq> set (d # ds)"
          by (metis set_dropWhileD set_subset_Cons subsetD subsetI)
        moreover from Cons have "set qs \<subseteq> set ps"
          by (metis set_dropWhileD set_subset_Cons subsetD subsetI)
        moreover have "set (dropWhile isSpace qs) \<subseteq> set qs"
          by (auto dest: set_dropWhileD)
        ultimately have sub: "set (dropWhile isSpace qs) \<subseteq> set (d # ds)"
          by blast
        from "2.prems" outer True Cons
        have "c = CHR '' '' \<or> c \<in> set (replaceParens (dropWhile isSpace qs))"
          by (simp del: dropWhile.simps)
        with "2.IH"(3) [OF outer True Cons] sub show ?thesis
          by blast
      qed
    qed
  qed
qed

lemma set_replaceAmp: "c \<in> set (replaceAmp u) \<Longrightarrow> c \<in> set '' and '' \<or> c \<in> set u"
proof (induction u rule: replaceAmp.induct)
  case 1
  then show ?case by simp
next
  case (2 d ds)
  show ?case
  proof (cases "dropWhile isSpace (d # ds)")
    case Nil
    with 2 show ?thesis by (auto simp del: dropWhile.simps)
  next
    case (Cons p ps)
    show ?thesis
    proof (cases "p = CHR ''&''")
      case False
      with 2 Cons show ?thesis by (auto simp del: dropWhile.simps)
    next
      case True
      from Cons have "set ps \<subseteq> set (d # ds)"
        by (metis set_dropWhileD set_subset_Cons subsetD subsetI)
      moreover have "set (dropWhile isSpace ps) \<subseteq> set ps"
        by (auto dest: set_dropWhileD)
      ultimately have sub: "set (dropWhile isSpace ps) \<subseteq> set (d # ds)"
        by blast
      from "2.prems" Cons True
      have "c \<in> set '' and '' \<or> c \<in> set (replaceAmp (dropWhile isSpace ps))"
        by (simp del: dropWhile.simps)
      with "2.IH"(2) [OF Cons True] sub show ?thesis
        by blast
    qed
  qed
qed

lemma replaceAmp_id: "CHR ''&'' \<notin> set u \<Longrightarrow> replaceAmp u = u"
proof (induction u)
  case Nil
  then show ?case by simp
next
  case (Cons d ds)
  have "p \<noteq> CHR ''&''" if "dropWhile isSpace (d # ds) = p # ps" for p ps
  proof -
    have "p \<in> set (dropWhile isSpace (d # ds))" by (simp only: that) simp
    then have "p \<in> set (d # ds)" by (rule set_dropWhileD)
    with Cons.prems show ?thesis by auto
  qed
  note ne = this
  have "replaceAmp (d # ds) = d # replaceAmp ds"
  proof (cases "dropWhile isSpace (d # ds)")
    case Nil
    show ?thesis by (simp only: replaceAmp.simps Nil list.case)
  next
    case (Cons p ps)
    from ne [OF Cons] have "(p = CHR ''&'') = False" by simp
    then show ?thesis by (simp only: replaceAmp.simps Cons list.case if_False)
  qed
  with Cons show ?case by simp
qed

lemma replaceParens_id: "CHR ''('' \<notin> set u \<Longrightarrow> replaceParens u = u"
proof (induction u)
  case Nil
  then show ?case by simp
next
  case (Cons d ds)
  have "p \<noteq> CHR ''(''" if "dropWhile isSpace (d # ds) = p # ps" for p ps
  proof -
    have "p \<in> set (dropWhile isSpace (d # ds))" by (simp only: that) simp
    then have "p \<in> set (d # ds)" by (rule set_dropWhileD)
    with Cons.prems show ?thesis by auto
  qed
  note ne = this
  have "replaceParens (d # ds) = d # replaceParens ds"
  proof (cases "dropWhile isSpace (d # ds)")
    case Nil
    show ?thesis by (simp only: replaceParens.simps Nil list.case)
  next
    case (Cons p ps)
    from ne [OF Cons] have "(p = CHR ''('') = False" by simp
    then show ?thesis by (simp only: replaceParens.simps Cons list.case if_False)
  qed
  with Cons show ?case by simp
qed

lemma keyChar_cleanName: "c \<in> set (cleanName s) \<Longrightarrow> keyChar c"
proof -
  let ?a = "trim (toLowerCase s)"
  let ?b = "replaceAmp ?a"
  let ?c = "replaceDash ?b"
  let ?d = "stripPunct ?c"
  let ?e = "replaceParens ?d"
  let ?f = "collapseSpaces ?e"
  assume "c \<in> set (cleanName s)"
  then have "c \<in> set (trim ?f)" by (simp add: cleanName_def)
  then have "c \<in> set ?f" using set_trim by blast
  then have "c = CHR '' '' \<or> (c \<in> set ?e \<and> \<not> isSpace c)"
    by (rule set_collapseSpaces)
  then show ?thesis
  proof
    assume "c = CHR '' ''"
    then show ?thesis by (simp add: keyChar_def)
  next
    assume "c \<in> set ?e \<and> \<not> isSpace c"
    then have ns: "\<not> isSpace c" and "c \<in> set ?e" by simp_all
    from set_replaceParens [OF this(2)] ns have "c \<in> set ?d"
      by (auto simp: isSpace_space)
    then have w: "isWord c" and "c \<in> set ?c"
      using ns by (simp_all add: stripPunct_def)
    then have "c \<in> set ?b"
      using ns by (auto simp: replaceDash_def isSpace_space split: if_splits)
    from set_replaceAmp [OF this] have "toLowerChar c = c"
    proof
      assume "c \<in> set '' and ''"
      then show ?thesis by (rule and_lowered)
    next
      assume "c \<in> set ?a"
      then have "c \<in> set (toLowerCase s)" using set_trim by blast
      then show ?thesis by (auto simp: toLowerCase_def toLowerChar_idem)
    qed
    with w show ?thesis by (simp add: keyChar_def)
  qed
qed

subsection \<open>The normal form\<close>

lemma normalForm_cleanName: "normalForm (cleanName s)"
proof -
  have "list_all keyChar (cleanName s)"
    by (simp add: list_all_iff keyChar_cleanName)
  moreover have "spaced (cleanName s)"
    unfolding cleanName_def by (rule spaced_trim [OF spaced_collapseSpaces])
  moreover have "trimmed (cleanName s)"
    unfolding cleanName_def by (rule trimmed_trim)
  ultimately show ?thesis by (simp add: normalForm_def)
qed

lemma normalForm_trim_take: "normalForm t \<Longrightarrow> normalForm (trim (take n t))"
proof -
  assume t: "normalForm t"
  have "set (trim (take n t)) \<subseteq> set t"
    using set_trim [of "take n t"] set_take_subset [of n t] by blast
  with t have "list_all keyChar (trim (take n t))"
    by (auto simp: normalForm_def list_all_iff)
  moreover from t have "spaced (trim (take n t))"
    by (simp add: normalForm_def spaced_trim spaced_take)
  moreover have "trimmed (trim (take n t))"
    by (rule trimmed_trim)
  ultimately show ?thesis by (simp add: normalForm_def)
qed

lemma normalForm_stripSuffixes: "normalForm t \<Longrightarrow> normalForm (stripSuffixes sufs t)"
  by (induction sufs) (simp_all add: normalForm_trim_take)

lemma keyChar_facts:
  "keyChar c \<Longrightarrow> toLowerChar c = c \<and> c \<noteq> CHR ''&'' \<and> c \<noteq> CHR ''-'' \<and> c \<noteq> CHR ''(''
     \<and> (isWord c \<or> isSpace c)"
  using isWord_not_special [of c]
  by (auto simp: keyChar_def toLowerChar_space isSpace_space)

lemma cleanName_normalForm: "normalForm t \<Longrightarrow> cleanName t = t"
proof -
  assume t: "normalForm t"
  then have ch: "\<forall>c \<in> set t. keyChar c" and sp: "spaced t" and tr: "trimmed t"
    by (simp_all add: normalForm_def list_all_iff)
  from ch have 1: "toLowerCase t = t"
    unfolding toLowerCase_def by (intro map_idI) (simp add: keyChar_facts)
  from ch have "CHR ''&'' \<notin> set t" using keyChar_facts by blast
  then have 2: "replaceAmp t = t" by (rule replaceAmp_id)
  from ch have 3: "replaceDash t = t"
    unfolding replaceDash_def by (intro map_idI) (simp add: keyChar_facts)
  from ch have 4: "stripPunct t = t"
    unfolding stripPunct_def using keyChar_facts by (simp add: filter_id_conv)
  from ch have "CHR ''('' \<notin> set t" using keyChar_facts by blast
  then have 5: "replaceParens t = t" by (rule replaceParens_id)
  from sp have 6: "collapseSpaces t = t" by (rule collapseSpaces_spaced)
  from tr have 7: "trim t = t" by (rule trim_trimmed)
  show ?thesis
    by (simp add: cleanName_def 1 2 3 4 5 6 7)
qed

lemma stripSuffixes_none: "\<forall>suf \<in> set sufs. \<not> endsWith t suf \<Longrightarrow> stripSuffixes sufs t = t"
  by (induction sufs) simp_all

lemma normalForm_normalize: "normalForm (normalizeDistrictName x)"
proof (cases "x = []")
  case True
  then show ?thesis
    by (simp add: normalizeDistrictName_def normalForm_def trimmed_def)
next
  case False
  then show ?thesis
    by (simp add: normalizeDistrictName_def normalForm_stripSuffixes normalForm_cleanName)
qed

lemma length_trim_le: "length (trim u) \<le> length u"
proof -
  obtain j k where "trim u = take k (drop j u)"
    using trim_prefix_suffix by blast
  then show ?thesis by simp
qed

lemma length_stripSuffixes_le: "length (stripSuffixes sufs t) \<le> length t"
proof (induction sufs)
  case Nil
  then show ?case by simp
next
  case (Cons suf sufs)
  have "length (trim (take (length t - length suf) t)) \<le> length t"
    using length_trim_le [of "take (length t - length suf) t"] by simp
  with Cons show ?case by simp
qed

lemma length_stripSuffixes_less:
  assumes "\<forall>suf \<in> set sufs. suf \<noteq> []" and "\<exists>suf \<in> set sufs. endsWith t suf"
  shows "length (stripSuffixes sufs t) < length t"
  using assms
proof (induction sufs)
  case Nil
  then show ?case by simp
next
  case (Cons suf sufs)
  show ?case
  proof (cases "endsWith t suf")
    case True
    from Cons.prems(1) have "0 < length suf" by simp
    moreover from True have "length suf \<le> length t" by (simp add: endsWith_def)
    ultimately have "length t - length suf < length t" by linarith
    then have "length (take (length t - length suf) t) < length t" by simp
    with length_trim_le [of "take (length t - length suf) t"] True show ?thesis
      by simp
  next
    case False
    with Cons show ?thesis by simp
  qed
qed

lemma normalize_shrinks:
  assumes "normalForm y" and "\<exists>suf \<in> set (suffixes @ levelSuffixes). endsWith y suf"
  shows "length (normalizeDistrictName y) < length y"
proof -
  have ne1: "\<forall>suf \<in> set suffixes. suf \<noteq> []" and ne2: "\<forall>suf \<in> set levelSuffixes. suf \<noteq> []"
    by (simp_all add: suffixes_def levelSuffixes_def)
  from assms(2) have y: "y \<noteq> []"
    using ne1 ne2 by (auto simp: endsWith_def)
  from assms(1) have cl: "cleanName y = y" by (rule cleanName_normalForm)
  show ?thesis
  proof (cases "\<exists>suf \<in> set suffixes. endsWith y suf")
    case True
    from length_stripSuffixes_less [OF ne1 True]
      length_stripSuffixes_le [of levelSuffixes "stripSuffixes suffixes y"]
    show ?thesis using y by (simp add: normalizeDistrictName_def cl)
  next
    case False
    then have same: "stripSuffixes suffixes y = y" by (simp add: stripSuffixes_none)
    from False assms(2) have "\<exists>suf \<in> set levelSuffixes. endsWith y suf" by auto
    from length_stripSuffixes_less [OF ne2 this] show ?thesis
      using y by (simp add: normalizeDistrictName_def cl same)
  qed
qed

lemma normalizeForKey_eq: "normalizeForKey s = normalizeDistrictName s"
  by (simp add: normalizeForKey_def normalizeDistrictName_def)

lemma districtKey_agree_off_alias:
  "normalizeDistrictName nm \<noteq> ''bistol warren regional district''
     \<Longrightarrow> districtKey nm = enrollment_districtKey nm"
  by (simp add: districtKey_def enrollment_districtKey_def DISTRICT_ALIASES_def
      enrollment_DISTRICT_ALIASES_def normalizeForKey_eq)

section \<open>The claims about the estimator\<close>




text \<open>
  Claim C2. In every \<open>ok:true\<close> result the hub is a selected district whose
  enrollment total is at least the total of every selected district, and every district
  before it in the deduplicated selection order has a strictly smaller total: among the
  districts with the maximal total the hub is the first.
\<close>

theorem C2_hub_selection:
  assumes "ok (computeConsolidationV1 selectedKeys budgets enrollments anchors params)"
  shows "\<exists>hubRec.
           enrollments (hubKey (computeConsolidationV1 selectedKeys budgets enrollments anchors params))
             = Some hubRec
         \<and> hubKey (computeConsolidationV1 selectedKeys budgets enrollments anchors params)
             \<in> set selectedKeys
         \<and> (\<forall>k \<in> set selectedKeys. \<exists>r. enrollments k = Some r \<and> total r \<le> total hubRec)
         \<and> (\<exists>pre post.
               uniqueOf selectedKeys
                 = pre @ hubKey (computeConsolidationV1 selectedKeys budgets enrollments anchors params) # post
               \<and> (\<forall>k \<in> set pre. \<exists>r. enrollments k = Some r \<and> total r < total hubRec))"
proof -
  let ?res = "computeConsolidationV1 selectedKeys budgets enrollments anchors params"
  let ?u = "uniqueOf selectedKeys"
  from assms have two: "2 \<le> length ?u"
    and all: "\<forall>k \<in> set selectedKeys.
        getProperty budgets k \<noteq> Undefined \<and> \<not> enrollmentMissing (getProperty enrollments k) \<and> getProperty anchors k \<noteq> Undefined"
    by (simp_all add: compute_ok_iff)
  have pres: "\<exists>r. enrollments k = Some r \<and> 0 < total r" if "k \<in> set selectedKeys" for k
    using all that by (auto simp: enrollmentMissing_iff)
  then have pos: "\<forall>k \<in> set ?u. 0 < total (recordAt enrollments k)"
    by (fastforce simp: set_uniqueOf recordAt_Some)
  from two have ne: "?u \<noteq> []" by auto
  from selectHub_split [OF ne pos] obtain pre post h where
    split: "?u = pre @ h # post"
    and h: "selectHub enrollments ?u = h"
    and before: "\<forall>k \<in> set pre. total (recordAt enrollments k) < total (recordAt enrollments h)"
    and after: "\<forall>k \<in> set post. total (recordAt enrollments k) \<le> total (recordAt enrollments h)"
    by blast
  have hub: "hubKey ?res = h"
    using compute_ok_unfold(2) [OF two all] h by simp
  have sel: "set selectedKeys = set pre \<union> {h} \<union> set post"
    using split set_uniqueOf [of selectedKeys] by auto
  then have mem: "h \<in> set selectedKeys" by simp
  from pres [OF mem] obtain hubRec where hr: "enrollments h = Some hubRec"
    by blast
  have le: "\<exists>r. enrollments k = Some r \<and> total r \<le> total hubRec" if k: "k \<in> set selectedKeys" for k
  proof -
    from pres [OF k] obtain r where r: "enrollments k = Some r" by blast
    from k sel have "total (recordAt enrollments k) \<le> total (recordAt enrollments h)"
      using before after by (auto intro: less_imp_le)
    with r hr show ?thesis by (simp add: recordAt_Some)
  qed
  have lt: "\<exists>r. enrollments k = Some r \<and> total r < total hubRec" if k: "k \<in> set pre" for k
  proof -
    from k sel have "k \<in> set selectedKeys" by simp
    from pres [OF this] obtain r where r: "enrollments k = Some r" by blast
    from before k have "total (recordAt enrollments k) < total (recordAt enrollments h)"
      by blast
    with r hr show ?thesis by (simp add: recordAt_Some)
  qed
  from split lt have "\<exists>pre post. ?u = pre @ h # post
      \<and> (\<forall>k \<in> set pre. \<exists>r. enrollments k = Some r \<and> total r < total hubRec)"
    by blast
  with hr mem le show ?thesis unfolding hub by blast
qed

theorem C2_hub_selection_witness:
  "ok (computeConsolidationV1 [''c'', ''a'', ''b'', ''a''] ex_budgets ex_enrollments ex_anchors ex_params)
   \<and> hubKey (computeConsolidationV1 [''c'', ''a'', ''b'', ''a''] ex_budgets ex_enrollments ex_anchors ex_params)
       = ''a''
   \<and> (\<exists>hubRec. ex_enrollments ''a'' = Some hubRec
        \<and> (\<forall>k \<in> set [''c'', ''a'', ''b'', ''a''].
              \<exists>r. ex_enrollments k = Some r \<and> total r \<le> total hubRec))"
proof -
  have hub: "hubKey (computeConsolidationV1 [''c'', ''a'', ''b'', ''a''] ex_budgets ex_enrollments ex_anchors ex_params) = ''a''"
    by (simp add: computeConsolidationV1_def Let_def uniqueOf_def joinStep_def joinInit_def
        ex_budgets_def ex_enrollments_def ex_anchors_def enrollmentMissing_def selectHub_def
        getProperty_def recordAt_def objectPrototypeKeys_def)
  from ex_ok C2_hub_selection [OF ex_ok] show ?thesis
    unfolding hub by blast
qed






text \<open>
  Claim C5. When fewer than two distinct keys are selected, the result has
  \<open>ok = false\<close>, the single warning \<open>Select at least 2 districts\<close>, and three
  empty missing lists.
\<close>

theorem C5_insufficient_selection:
  assumes "length (uniqueOf selectedKeys) < 2"
  shows "ok (computeConsolidationV1 selectedKeys budgets enrollments anchors params) = False
     \<and> warnings (computeConsolidationV1 selectedKeys budgets enrollments anchors params)
         = [''Select at least 2 districts'']
     \<and> missing_budgets (missing (computeConsolidationV1 selectedKeys budgets enrollments anchors params)) = []
     \<and> missing_enrollment (missing (computeConsolidationV1 selectedKeys budgets enrollments anchors params)) = []
     \<and> missing_anchors (missing (computeConsolidationV1 selectedKeys budgets enrollments anchors params)) = []"
  using assms by (simp add: compute_few empty_result_def)

theorem C5_insufficient_selection_witness:
  "length (uniqueOf [''a'', ''a'', ''a'']) < 2
   \<and> ok (computeConsolidationV1 [''a'', ''a'', ''a''] Map.empty Map.empty Map.empty
          \<lparr> adminReductionRate = 1, costPerStudentMile = 3, affectedShare = 1 \<rparr>) = False
   \<and> warnings (computeConsolidationV1 [''a'', ''a'', ''a''] Map.empty Map.empty Map.empty
          \<lparr> adminReductionRate = 1, costPerStudentMile = 3, affectedShare = 1 \<rparr>)
       = [''Select at least 2 districts'']"
proof -
  have h: "length (uniqueOf [''a'', ''a'', ''a'']) < 2"
    by (simp add: uniqueOf_def)
  from h C5_insufficient_selection [OF h] show ?thesis by simp
qed



text \<open>
  Claim C10. In every \<open>ok:true\<close> result the keys of the spoke breakdown are the
  selected keys other than the hub, each once, so the breakdown has one entry less than
  there are distinct selected keys; the enrollment of an entry is the enrollment total of
  its key; and the three missing lists are empty.
\<close>

theorem C10_breakdown_entries:
  assumes "ok (computeConsolidationV1 selectedKeys budgets enrollments anchors params)"
  shows "set (map key (spokeBreakdown (computeConsolidationV1 selectedKeys budgets enrollments anchors params)))
           = set selectedKeys
             - {hubKey (computeConsolidationV1 selectedKeys budgets enrollments anchors params)}
     \<and> distinct (map key (spokeBreakdown (computeConsolidationV1 selectedKeys budgets enrollments anchors params)))
     \<and> length (spokeBreakdown (computeConsolidationV1 selectedKeys budgets enrollments anchors params))
           = length (uniqueOf selectedKeys) - 1
     \<and> (\<forall>s \<in> set (spokeBreakdown (computeConsolidationV1 selectedKeys budgets enrollments anchors params)).
           \<exists>r. enrollments (key s) = Some r \<and> enrollment s = total r)
     \<and> missing_budgets (missing (computeConsolidationV1 selectedKeys budgets enrollments anchors params)) = []
     \<and> missing_enrollment (missing (computeConsolidationV1 selectedKeys budgets enrollments anchors params)) = []
     \<and> missing_anchors (missing (computeConsolidationV1 selectedKeys budgets enrollments anchors params)) = []"
proof -
  let ?res = "computeConsolidationV1 selectedKeys budgets enrollments anchors params"
  let ?spokes = "filter (\<lambda>k. k \<noteq> hubKey ?res) (uniqueOf selectedKeys)"
  from assms have two: "2 \<le> length (uniqueOf selectedKeys)"
    and all: "\<forall>k \<in> set selectedKeys.
        getProperty budgets k \<noteq> Undefined \<and> \<not> enrollmentMissing (getProperty enrollments k) \<and> getProperty anchors k \<noteq> Undefined"
    by (simp_all add: compute_ok_iff)
  have pairs: "mset (map (\<lambda>s. (key s, enrollment s)) (spokeBreakdown ?res))
      = mset (map (\<lambda>k. (k, total (recordAt enrollments k))) ?spokes)"
    by (rule ok_breakdown [OF assms])
  have "image_mset fst (mset (map (\<lambda>s. (key s, enrollment s)) (spokeBreakdown ?res)))
      = image_mset fst (mset (map (\<lambda>k. (k, total (recordAt enrollments k))) ?spokes))"
    by (simp only: pairs)
  then have keys: "mset (map key (spokeBreakdown ?res)) = mset ?spokes"
    by (simp add: image_mset.compositionality comp_def)
  have s1: "set (map key (spokeBreakdown ?res)) = set selectedKeys - {hubKey ?res}"
    using mset_eq_setD [OF keys] set_uniqueOf [of selectedKeys] by auto
  have s2: "distinct (map key (spokeBreakdown ?res))"
    using mset_eq_imp_distinct_iff [OF keys] distinct_uniqueOf [of selectedKeys] by simp
  have s3: "length (spokeBreakdown ?res) = length (uniqueOf selectedKeys) - 1"
    by (rule ok_breakdown_length [OF assms])
  have s4: "\<exists>r. enrollments (key s) = Some r \<and> enrollment s = total r"
    if s: "s \<in> set (spokeBreakdown ?res)" for s
  proof -
    from s have "(key s, enrollment s) \<in> set (map (\<lambda>s. (key s, enrollment s)) (spokeBreakdown ?res))"
      by auto
    then have "(key s, enrollment s) \<in> set (map (\<lambda>k. (k, total (recordAt enrollments k))) ?spokes)"
      using mset_eq_setD [OF pairs] by simp
    then have k: "key s \<in> set selectedKeys" and e: "enrollment s = total (recordAt enrollments (key s))"
      by (auto simp: set_uniqueOf)
    from all k obtain r where "enrollments (key s) = Some r"
      by (auto simp: enrollmentMissing_iff)
    with e show ?thesis by (simp add: recordAt_Some)
  qed
  have s5: "missing ?res = \<lparr> missing_budgets = [], missing_enrollment = [], missing_anchors = [] \<rparr>"
    by (rule compute_ok_unfold(3) [OF two all])
  from s1 s2 s3 s4 s5 show ?thesis by simp
qed

theorem C10_breakdown_entries_witness:
  "ok (computeConsolidationV1 [''c'', ''a'', ''b'', ''a''] ex_budgets ex_enrollments ex_anchors ex_params)
   \<and> set (map key (spokeBreakdown
        (computeConsolidationV1 [''c'', ''a'', ''b'', ''a''] ex_budgets ex_enrollments ex_anchors ex_params)))
       = {''c'', ''b''}
   \<and> length (spokeBreakdown
        (computeConsolidationV1 [''c'', ''a'', ''b'', ''a''] ex_budgets ex_enrollments ex_anchors ex_params)) = 2"
proof -
  have hub: "hubKey (computeConsolidationV1 [''c'', ''a'', ''b'', ''a''] ex_budgets ex_enrollments ex_anchors ex_params) = ''a''"
    by (simp add: computeConsolidationV1_def Let_def uniqueOf_def joinStep_def joinInit_def
        ex_budgets_def ex_enrollments_def ex_anchors_def enrollmentMissing_def selectHub_def
        getProperty_def recordAt_def objectPrototypeKeys_def)
  have u: "uniqueOf [''c'', ''a'', ''b'', ''a''] = [''c'', ''a'', ''b'']"
    by (simp add: uniqueOf_def)
  from ex_ok C10_breakdown_entries [OF ex_ok] show ?thesis
    unfolding hub u by auto
qed

section \<open>The claims about the key normalizer\<close>

text \<open>
  Claim C7 says that the two \<open>districtKey\<close> implementations return the same key for
  every input. They do not: the alias table of scripts/lib/normalize.ts maps
  \<open>bistol warren regional district\<close> to \<open>bristol warren\<close>, and the table of
  frontend/src/lib/enrollment.ts is empty, so on a name that normalizes to the alias the
  two keys differ.
\<close>

theorem C7_district_keys_differ:
  "districtKey ''Bistol Warren Regional District'' = ''bristol warren''
   \<and> enrollment_districtKey ''Bistol Warren Regional District''
       = ''bistol warren regional district''"
proof -
  have n: "normalizeDistrictName ''Bistol Warren Regional District''
      = ''bistol warren regional district''"
    by code_simp
  show ?thesis
    by (simp add: districtKey_def enrollment_districtKey_def DISTRICT_ALIASES_def
        enrollment_DISTRICT_ALIASES_def normalizeForKey_eq n)
qed

text \<open>
  Claim C8, amended. Normalizing strips at most one suffix of each of the two groups, so a
  name that still ends in a suffix after one pass loses it in the next. The normalization
  is idempotent at \<open>x\<close> exactly when the normalized \<open>x\<close> ends with none of the
  five suffixes.
\<close>

theorem C8_normalize_idempotent_iff:
  "normalizeDistrictName (normalizeDistrictName x) = normalizeDistrictName x
     \<longleftrightarrow> (\<forall>suf \<in> set (suffixes @ levelSuffixes). \<not> endsWith (normalizeDistrictName x) suf)"
proof
  assume eq: "normalizeDistrictName (normalizeDistrictName x) = normalizeDistrictName x"
  show "\<forall>suf \<in> set (suffixes @ levelSuffixes). \<not> endsWith (normalizeDistrictName x) suf"
  proof (rule ccontr)
    assume "\<not> (\<forall>suf \<in> set (suffixes @ levelSuffixes). \<not> endsWith (normalizeDistrictName x) suf)"
    then have "\<exists>suf \<in> set (suffixes @ levelSuffixes). endsWith (normalizeDistrictName x) suf"
      by blast
    from normalize_shrinks [OF normalForm_normalize this] eq show False by simp
  qed
next
  let ?y = "normalizeDistrictName x"
  assume none: "\<forall>suf \<in> set (suffixes @ levelSuffixes). \<not> endsWith ?y suf"
  have cl: "cleanName ?y = ?y"
    by (rule cleanName_normalForm [OF normalForm_normalize])
  from none have "stripSuffixes suffixes ?y = ?y" "stripSuffixes levelSuffixes ?y = ?y"
    by (simp_all add: stripSuffixes_none)
  with cl show "normalizeDistrictName ?y = ?y"
    by (simp add: normalizeDistrictName_def [of ?y])
qed

theorem C8_normalize_idempotent_iff_witness:
  "normalizeDistrictName ''Foster & Glocester Public Schools'' = ''foster and glocester''
   \<and> \<not> endsWith ''foster and glocester'' '' regional school district''
   \<and> \<not> endsWith ''foster and glocester'' '' school district''
   \<and> \<not> endsWith ''foster and glocester'' '' public schools''
   \<and> \<not> endsWith ''foster and glocester'' '' elementary''
   \<and> \<not> endsWith ''foster and glocester'' '' secondary''
   \<and> normalizeDistrictName (normalizeDistrictName ''Foster & Glocester Public Schools'')
       = ''foster and glocester''"
proof -
  have e: "normalizeDistrictName ''Foster & Glocester Public Schools'' = ''foster and glocester''"
    by code_simp
  have h: "\<forall>suf \<in> set (suffixes @ levelSuffixes). \<not> endsWith ''foster and glocester'' suf"
    by (simp add: suffixes_def levelSuffixes_def endsWith_def)
  from C8_normalize_idempotent_iff [of "''Foster & Glocester Public Schools''"] e h
  have "normalizeDistrictName (normalizeDistrictName ''Foster & Glocester Public Schools'')
       = ''foster and glocester''"
    by simp
  with e h show ?thesis
    by (simp add: suffixes_def levelSuffixes_def)
qed

text \<open>
  The claim as stated fails: the first pass leaves \<open>chariho regional school district\<close>,
  the second pass \<open>chariho\<close>.
\<close>

theorem C8_normalize_not_idempotent:
  "normalizeDistrictName (normalizeDistrictName ''Chariho Regional School District Elementary'')
     \<noteq> normalizeDistrictName ''Chariho Regional School District Elementary''"
proof -
  have a: "normalizeDistrictName ''Chariho Regional School District Elementary''
      = ''chariho regional school district''"
    by code_simp
  have b: "normalizeDistrictName ''chariho regional school district'' = ''chariho''"
    by code_simp
  show ?thesis by (simp add: a b)
qed

end
